theory Spec2Isabelle
  imports Main
begin

section \<open>Data model\<close>

text \<open>
  The account entity of \<^verbatim>\<open>app/services/user_service.py\<close>. A UUID is an opaque
  identifier (a natural number here), a timestamp is a reading of the clock, Python's
  \<^verbatim>\<open>None\<close> in a nullable column is \<open>None\<close> of an option type and Python's
  unbounded integer is \<open>int\<close>.
\<close>

datatype UserRole = ANONYMOUS | AUTHENTICATED | MANAGER | ADMIN

type_synonym uuid = nat
type_synonym timestamp = nat

text \<open>
  Modelled from the spec: the ORM class \<^verbatim>\<open>User\<close> (app/models/user_model.py) is not
  part of the sources at hand; its columns are the attributes of the account of
  section 3 of the specification, which are also the attributes the service reads and
  writes.
\<close>

record User =
  user_id :: uuid
  email :: string
  nickname :: string
  first_name :: "string option"
  last_name :: "string option"
  hashed_password :: string
  role :: UserRole
  is_professional :: bool
  email_verified :: bool
  verification_token :: "string option"
  is_locked :: bool
  failed_login_attempts :: int
  last_login_at :: "timestamp option"
  created_at :: timestamp

text \<open>The raw dictionary handed to \<^verbatim>\<open>create\<close> and the record the schema returns.\<close>

type_synonym user_data = "(string \<times> string) list"

record UserCreate_data =
  uc_email :: string
  uc_nickname :: string
  uc_password :: string
  uc_role :: UserRole
  uc_first_name :: "string option"
  uc_last_name :: "string option"

text \<open>
  The collaborators the service calls but does not implement: the creation schema
  (\<open>None\<close> is pydantic's \<^verbatim>\<open>ValidationError\<close>), the two credential functions and the
  configured maximum of failed logins (\<^verbatim>\<open>settings.max_login_attempts\<close>). The two
  lowercasing functions of \<^verbatim>\<open>search_users\<close> are library code as well and are taken
  as they are: \<open>str_lower\<close> is Python's \<^verbatim>\<open>str.lower\<close>, which follows the Unicode case
  mapping, and \<open>sql_lower\<close> is the \<^verbatim>\<open>lower\<close> of the database, applied by
  \<^verbatim>\<open>func.lower\<close> to both sides of a comparison. A string is the sequence of bytes of
  its encoding.
\<close>

record env =
  UserCreate :: "user_data \<Rightarrow> UserCreate_data option"
  hash_password :: "string \<Rightarrow> string"
  verify_password :: "string \<Rightarrow> string \<Rightarrow> bool"
  max_login_attempts :: int
  str_lower :: "string \<Rightarrow> string"
  sql_lower :: "string \<Rightarrow> string"

text \<open>The email collaborator: the messages it has been asked to send.\<close>

record EmailService =
  outbox :: "(User \<times> string) list"

section \<open>The persistence gateway\<close>

text \<open>
  The session holds the committed table \<open>rows\<close> (in the order the database returns
  them), the unit of work \<open>pending\<close> and a \<open>schedule\<close> of what the database will do
  on the next round trips: each \<^verbatim>\<open>execute\<close> and each \<^verbatim>\<open>commit\<close> consumes one entry
  \<open>(fails, elapsed)\<close>, raises \<^verbatim>\<open>SQLAlchemyError\<close> when \<open>fails\<close> holds and advances
  the clock by \<open>elapsed\<close>. An exhausted schedule means success in no time.
\<close>

datatype exn = SQLAlchemyError

datatype change = Put User | Del uuid

record session =
  rows :: "User list"
  pending :: "change list"
  schedule :: "(bool \<times> nat) list"
  clock :: timestamp
  rollbacks :: nat
  next_id :: uuid

record select_query =
  wheres :: "(User \<Rightarrow> bool) list"
  offset :: nat
  limit :: "nat option"

definition select_User :: select_query where
  "select_User = \<lparr>wheres = [], offset = 0, limit = None\<rparr>"

definition filter_q :: "select_query \<Rightarrow> (User \<Rightarrow> bool) \<Rightarrow> select_query" where
  "filter_q q p = q\<lparr>wheres := wheres q @ [p]\<rparr>"

definition run_query :: "select_query \<Rightarrow> User list \<Rightarrow> User list" where
  "run_query q tbl =
     (let matching = filter (\<lambda>u. list_all (\<lambda>p. p u) (wheres q)) tbl;
          skipped = drop (offset q) matching
      in case limit q of None \<Rightarrow> skipped | Some n \<Rightarrow> take n skipped)"

definition upsert :: "User \<Rightarrow> User list \<Rightarrow> User list" where
  "upsert u tbl =
     (if list_ex (\<lambda>r. user_id r = user_id u) tbl
      then map (\<lambda>r. if user_id r = user_id u then u else r) tbl
      else tbl @ [u])"

fun apply_change :: "User list \<Rightarrow> change \<Rightarrow> User list" where
  "apply_change tbl (Put u) = upsert u tbl"
| "apply_change tbl (Del i) = filter (\<lambda>r. user_id r \<noteq> i) tbl"

definition flushed :: "session \<Rightarrow> User list" where
  "flushed s = foldl apply_change (rows s) (pending s)"

definition round_trip :: "session \<Rightarrow> bool \<times> session" where
  "round_trip s =
     (case schedule s of
        [] \<Rightarrow> (False, s)
      | (fails, elapsed) # rest \<Rightarrow>
          (fails, s\<lparr>schedule := rest, clock := clock s + elapsed\<rparr>))"

definition session_execute :: "session \<Rightarrow> select_query \<Rightarrow> (exn + User list) \<times> session" where
  "session_execute s q =
     (case round_trip s of
        (True, s1) \<Rightarrow> (Inl SQLAlchemyError, s1)
      | (False, s1) \<Rightarrow> (Inr (run_query q (flushed s1)), s1))"

definition session_commit :: "session \<Rightarrow> (exn + unit) \<times> session" where
  "session_commit s =
     (case round_trip s of
        (True, s1) \<Rightarrow> (Inl SQLAlchemyError, s1)
      | (False, s1) \<Rightarrow> (Inr (), s1\<lparr>rows := flushed s1, pending := []\<rparr>))"

definition session_rollback :: "session \<Rightarrow> session" where
  "session_rollback s = s\<lparr>pending := [], rollbacks := Suc (rollbacks s)\<rparr>"

definition session_add :: "session \<Rightarrow> User \<Rightarrow> session" where
  "session_add s u = s\<lparr>pending := pending s @ [Put u]\<rparr>"

definition session_delete :: "session \<Rightarrow> User \<Rightarrow> session" where
  "session_delete s u = s\<lparr>pending := pending s @ [Del (user_id u)]\<rparr>"

definition first :: "'a list \<Rightarrow> 'a option" where
  "first xs = (case xs of [] \<Rightarrow> None | x # _ \<Rightarrow> Some x)"

section \<open>The account service\<close>

text \<open>
  \<^verbatim>\<open>_execute_query\<close>: execute, then commit; a \<^verbatim>\<open>SQLAlchemyError\<close> of either is
  caught, the session is rolled back and \<^verbatim>\<open>None\<close> is returned.
\<close>

definition execute_query :: "session \<Rightarrow> select_query \<Rightarrow> User list option \<times> session" where
  "execute_query s query =
     (case session_execute s query of
        (Inl e, s1) \<Rightarrow> (None, session_rollback s1)
      | (Inr result, s1) \<Rightarrow>
          (case session_commit s1 of
             (Inl e, s2) \<Rightarrow> (None, session_rollback s2)
           | (Inr _, s2) \<Rightarrow> (Some result, s2)))"

definition fetch_user :: "session \<Rightarrow> (User \<Rightarrow> bool) \<Rightarrow> User option \<times> session" where
  "fetch_user s filters =
     (case execute_query s (filter_q select_User filters) of
        (Some result, s1) \<Rightarrow> (first result, s1)
      | (None, s1) \<Rightarrow> (None, s1))"

definition get_by_id :: "session \<Rightarrow> uuid \<Rightarrow> User option \<times> session" where
  "get_by_id s i = fetch_user s (\<lambda>u. user_id u = i)"

definition get_by_nickname :: "session \<Rightarrow> string \<Rightarrow> User option \<times> session" where
  "get_by_nickname s n = fetch_user s (\<lambda>u. nickname u = n)"

definition get_by_email :: "session \<Rightarrow> string \<Rightarrow> User option \<times> session" where
  "get_by_email s e = fetch_user s (\<lambda>u. email u = e)"

text \<open>
  Modelled from the spec: the constructor of the missing class \<^verbatim>\<open>User\<close>, called as
  \<^verbatim>\<open>User(**validated_data)\<close>. It copies the validated fields; every column the
  dictionary does not name takes its default (section 3: \<open>email_verified\<close> and
  \<open>is_locked\<close> false, the nullable columns null, the counter 0).
\<close>

definition new_User :: "uuid \<Rightarrow> timestamp \<Rightarrow> string \<Rightarrow> UserCreate_data \<Rightarrow> User" where
  "new_User i t hashed v =
     \<lparr>user_id = i, email = uc_email v, nickname = uc_nickname v,
      first_name = uc_first_name v, last_name = uc_last_name v,
      hashed_password = hashed, role = uc_role v, is_professional = False,
      email_verified = False, verification_token = None, is_locked = False,
      failed_login_attempts = 0, last_login_at = None, created_at = t\<rparr>"

text \<open>
  \<^verbatim>\<open>create\<close>. A rejected input, a taken email and a taken nickname each return
  \<^verbatim>\<open>None\<close> (the \<^verbatim>\<open>ValueError\<close> raised in the body is caught by the function's own
  handler). The \<^verbatim>\<open>commit\<close> of the new row is called directly, outside
  \<^verbatim>\<open>_execute_query\<close>, and the handlers name \<^verbatim>\<open>ValidationError\<close> and
  \<^verbatim>\<open>ValueError\<close> only. The email service is a parameter the body never uses.
\<close>

definition create ::
  "env \<Rightarrow> session \<Rightarrow> user_data \<Rightarrow> EmailService
     \<Rightarrow> (exn + User option) \<times> session \<times> EmailService" where
  "create c s user_data email_service =
     (case UserCreate c user_data of
        None \<Rightarrow> (Inr None, s, email_service)
      | Some validated_data \<Rightarrow>
          (case get_by_email s (uc_email validated_data) of
             (Some _, s1) \<Rightarrow> (Inr None, s1, email_service)
           | (None, s1) \<Rightarrow>
               (case get_by_nickname s1 (uc_nickname validated_data) of
                  (Some _, s2) \<Rightarrow> (Inr None, s2, email_service)
                | (None, s2) \<Rightarrow>
                    (let hashed = hash_password c (uc_password validated_data);
                         new_user = new_User (next_id s2) (clock s2) hashed validated_data;
                         s3 = session_add (s2\<lparr>next_id := Suc (next_id s2)\<rparr>) new_user
                     in case session_commit s3 of
                          (Inl e, s4) \<Rightarrow> (Inl e, s4, email_service)
                        | (Inr _, s4) \<Rightarrow> (Inr (Some new_user), s4, email_service)))))"

text \<open>
  \<^verbatim>\<open>delete\<close>: the lookup goes through \<^verbatim>\<open>_execute_query\<close>, the removal and its
  \<^verbatim>\<open>commit\<close> do not.
\<close>

definition delete :: "session \<Rightarrow> uuid \<Rightarrow> (exn + bool) \<times> session" where
  "delete s i =
     (case get_by_id s i of
        (None, s1) \<Rightarrow> (Inr False, s1)
      | (Some user, s1) \<Rightarrow>
          (case session_commit (session_delete s1 user) of
             (Inl e, s2) \<Rightarrow> (Inl e, s2)
           | (Inr _, s2) \<Rightarrow> (Inr True, s2)))"

definition list_users :: "session \<Rightarrow> nat \<Rightarrow> nat \<Rightarrow> User list \<times> session" where
  "list_users s skip lim =
     (case execute_query s (select_User\<lparr>offset := skip, limit := Some lim\<rparr>) of
        (Some result, s1) \<Rightarrow> (result, s1)
      | (None, s1) \<Rightarrow> ([], s1))"

definition register_user ::
  "env \<Rightarrow> session \<Rightarrow> user_data \<Rightarrow> EmailService
     \<Rightarrow> (exn + User option) \<times> session \<times> EmailService" where
  "register_user c s user_data get_email_service = create c s user_data get_email_service"

text \<open>
  \<^verbatim>\<open>login_user\<close>. The three early exits (no account, unverified, locked) return
  before the password is looked at. \<^verbatim>\<open>datetime.now\<close> reads the clock after the
  lookup has returned.
\<close>

definition login_user :: "env \<Rightarrow> session \<Rightarrow> string \<Rightarrow> string \<Rightarrow> (exn + User option) \<times> session" where
  "login_user c s e password =
     (case get_by_email s e of
        (None, s1) \<Rightarrow> (Inr None, s1)
      | (Some user, s1) \<Rightarrow>
          if \<not> email_verified user then (Inr None, s1)
          else if is_locked user then (Inr None, s1)
          else if verify_password c password (hashed_password user) then
            (let user1 = user\<lparr>failed_login_attempts := 0, last_login_at := Some (clock s1)\<rparr>
             in case session_commit (session_add s1 user1) of
                  (Inl x, s2) \<Rightarrow> (Inl x, s2)
                | (Inr _, s2) \<Rightarrow> (Inr (Some user1), s2))
          else
            (let user1 = user\<lparr>failed_login_attempts := failed_login_attempts user + 1\<rparr>;
                 user2 = (if failed_login_attempts user1 \<ge> max_login_attempts c
                          then user1\<lparr>is_locked := True\<rparr> else user1)
             in case session_commit (session_add s1 user2) of
                  (Inl x, s2) \<Rightarrow> (Inl x, s2)
                | (Inr _, s2) \<Rightarrow> (Inr None, s2)))"

definition is_account_locked :: "session \<Rightarrow> string \<Rightarrow> bool \<times> session" where
  "is_account_locked s e =
     (case get_by_email s e of
        (Some user, s1) \<Rightarrow> (is_locked user, s1)
      | (None, s1) \<Rightarrow> (False, s1))"

definition reset_password :: "env \<Rightarrow> session \<Rightarrow> uuid \<Rightarrow> string \<Rightarrow> (exn + bool) \<times> session" where
  "reset_password c s i new_password =
     (let hashed = hash_password c new_password
      in case get_by_id s i of
           (None, s1) \<Rightarrow> (Inr False, s1)
         | (Some user, s1) \<Rightarrow>
             (let user1 = user\<lparr>hashed_password := hashed, failed_login_attempts := 0,
                               is_locked := False\<rparr>
              in case session_commit (session_add s1 user1) of
                   (Inl x, s2) \<Rightarrow> (Inl x, s2)
                 | (Inr _, s2) \<Rightarrow> (Inr True, s2)))"

definition verify_email_with_token :: "session \<Rightarrow> uuid \<Rightarrow> string \<Rightarrow> (exn + bool) \<times> session" where
  "verify_email_with_token s i token =
     (case get_by_id s i of
        (None, s1) \<Rightarrow> (Inr False, s1)
      | (Some user, s1) \<Rightarrow>
          if email_verified user then (Inr False, s1)
          else if verification_token user = Some token then
            (let user1 = user\<lparr>email_verified := True, verification_token := None,
                               role := (if role user = ANONYMOUS then AUTHENTICATED
                                        else role user)\<rparr>
             in case session_commit (session_add s1 user1) of
                  (Inl x, s2) \<Rightarrow> (Inl x, s2)
                | (Inr _, s2) \<Rightarrow> (Inr True, s2))
          else (Inr False, s1))"

text \<open>\<^verbatim>\<open>count\<close> calls \<^verbatim>\<open>session.execute\<close> directly.\<close>

definition count :: "session \<Rightarrow> (exn + nat) \<times> session" where
  "count s =
     (case round_trip s of
        (True, s1) \<Rightarrow> (Inl SQLAlchemyError, s1)
      | (False, s1) \<Rightarrow> (Inr (length (flushed s1)), s1))"

definition unlock_user_account :: "session \<Rightarrow> uuid \<Rightarrow> (exn + bool) \<times> session" where
  "unlock_user_account s i =
     (case get_by_id s i of
        (None, s1) \<Rightarrow> (Inr False, s1)
      | (Some user, s1) \<Rightarrow>
          if is_locked user then
            (let user1 = user\<lparr>is_locked := False, failed_login_attempts := 0\<rparr>
             in case session_commit (session_add s1 user1) of
                  (Inl x, s2) \<Rightarrow> (Inl x, s2)
                | (Inr _, s2) \<Rightarrow> (Inr True, s2))
          else (Inr False, s1))"

subsection \<open>Search\<close>

text \<open>
  Lowercasing of the ASCII letters, every other byte left as it is. It says when two
  ASCII strings are equal up to letter case, and it is the lowercasing of the concrete
  environment below; \<^verbatim>\<open>search_users\<close> itself uses the two functions of the
  environment. A second one also maps the Kelvin sign (U+212A, the bytes E2 84 AA), as
  the Unicode case mapping does, to \<open>k\<close>.
\<close>

definition lower_char :: "char \<Rightarrow> char" where
  "lower_char ch =
     (let n = (of_char ch :: nat) in if 65 \<le> n \<and> n \<le> 90 then char_of (n + 32) else ch)"

definition lower :: "string \<Rightarrow> string" where
  "lower str = map lower_char str"

fun lower_with_kelvin :: "string \<Rightarrow> string" where
  "lower_with_kelvin (a # b # c # rest) =
     (if a = CHR 0xE2 \<and> b = CHR 0x84 \<and> c = CHR 0xAA
      then CHR ''k'' # lower_with_kelvin rest
      else lower_char a # lower_with_kelvin (b # c # rest))"
| "lower_with_kelvin (a # rest) = lower_char a # lower_with_kelvin rest"
| "lower_with_kelvin [] = []"

definition role_name :: "UserRole \<Rightarrow> string" where
  "role_name r =
     (case r of ANONYMOUS \<Rightarrow> ''ANONYMOUS'' | AUTHENTICATED \<Rightarrow> ''AUTHENTICATED''
      | MANAGER \<Rightarrow> ''MANAGER'' | ADMIN \<Rightarrow> ''ADMIN'')"

record UserResponse =
  r_id :: uuid
  r_email :: string
  r_nickname :: string
  r_is_professional :: bool
  r_role :: UserRole
  r_registration_date :: timestamp
  r_account_status :: string

definition to_response :: "User \<Rightarrow> UserResponse" where
  "to_response user =
     \<lparr>r_id = user_id user, r_email = email user, r_nickname = nickname user,
      r_is_professional = is_professional user, r_role = role user,
      r_registration_date = created_at user,
      r_account_status = (if \<not> is_locked user then ''Active'' else ''Locked'')\<rparr>"

text \<open>
  The truth value Python gives an optional string argument: \<^verbatim>\<open>None\<close> and the empty
  string are false. A \<^verbatim>\<open>datetime\<close> is always true, so a date filter applies whenever
  the argument is present. A nullable column compared with a value is false on null.
\<close>

definition truthy :: "string option \<Rightarrow> bool" where
  "truthy x = (case x of None \<Rightarrow> False | Some str \<Rightarrow> str \<noteq> [])"

definition str_of :: "string option \<Rightarrow> string" where
  "str_of x = (case x of None \<Rightarrow> [] | Some str \<Rightarrow> str)"

definition lower_eq_col :: "env \<Rightarrow> string option \<Rightarrow> string \<Rightarrow> bool" where
  "lower_eq_col c col v =
     (case col of None \<Rightarrow> False | Some x \<Rightarrow> sql_lower c x = sql_lower c v)"

definition search_users ::
  "env \<Rightarrow> session \<Rightarrow> string option \<Rightarrow> string option \<Rightarrow> string option
     \<Rightarrow> string option
     \<Rightarrow> string option \<Rightarrow> string option \<Rightarrow> timestamp option \<Rightarrow> timestamp option
     \<Rightarrow> nat \<Rightarrow> nat \<Rightarrow> UserResponse list \<times> session" where
  "search_users c s username email_arg first_name_arg last_name_arg role_arg account_status
       registration_date_from registration_date_to skip lim =
     (let q0 = select_User;
          q1 = (if truthy username
                then filter_q q0
                       (\<lambda>u. sql_lower c (nickname u) = sql_lower c (str_of username))
                else q0);
          q2 = (if truthy email_arg
                then filter_q q1
                       (\<lambda>u. sql_lower c (email u) = sql_lower c (str_of email_arg))
                else q1);
          q3 = (if truthy first_name_arg
                then filter_q q2 (\<lambda>u. lower_eq_col c (first_name u) (str_of first_name_arg))
                else q2);
          q4 = (if truthy last_name_arg
                then filter_q q3 (\<lambda>u. lower_eq_col c (last_name u) (str_of last_name_arg))
                else q3);
          q5 = (if truthy role_arg
                then filter_q q4 (\<lambda>u. role_name (role u) = str_of role_arg) else q4);
          q6 = (if truthy account_status
                then (let locked = (str_lower c (str_of account_status) = ''locked'')
                      in filter_q q5 (\<lambda>u. is_locked u = locked))
                else q5);
          q7 = (case registration_date_from of
                  Some d \<Rightarrow> filter_q q6 (\<lambda>u. created_at u \<ge> d) | None \<Rightarrow> q6);
          q8 = (case registration_date_to of
                  Some d \<Rightarrow> filter_q q7 (\<lambda>u. created_at u \<le> d) | None \<Rightarrow> q7);
          query = q8\<lparr>offset := skip, limit := Some lim\<rparr>
      in case execute_query s query of
           (Some users, s1) \<Rightarrow> (map to_response users, s1)
         | (None, s1) \<Rightarrow> ([], s1))"

text \<open>
  The conjunction of the filters of \<^verbatim>\<open>search_users\<close> other than the one on the
  account status, as a predicate on a row.
\<close>

definition other_filters ::
  "env \<Rightarrow> string option \<Rightarrow> string option \<Rightarrow> string option \<Rightarrow> string option
     \<Rightarrow> string option \<Rightarrow> timestamp option \<Rightarrow> timestamp option \<Rightarrow> User \<Rightarrow> bool" where
  "other_filters c username email_arg first_name_arg last_name_arg role_arg
       registration_date_from registration_date_to u =
     ((truthy username \<longrightarrow> sql_lower c (nickname u) = sql_lower c (str_of username))
      \<and> (truthy email_arg \<longrightarrow> sql_lower c (email u) = sql_lower c (str_of email_arg))
      \<and> (truthy first_name_arg \<longrightarrow> lower_eq_col c (first_name u) (str_of first_name_arg))
      \<and> (truthy last_name_arg \<longrightarrow> lower_eq_col c (last_name u) (str_of last_name_arg))
      \<and> (truthy role_arg \<longrightarrow> role_name (role u) = str_of role_arg)
      \<and> (case registration_date_from of Some d \<Rightarrow> d \<le> created_at u | None \<Rightarrow> True)
      \<and> (case registration_date_to of Some d \<Rightarrow> created_at u \<le> d | None \<Rightarrow> True))"

subsection \<open>Runs of login attempts\<close>

text \<open>Consecutive calls of \<^verbatim>\<open>login_user\<close> for one email, one per password.\<close>

fun login_seq ::
  "env \<Rightarrow> session \<Rightarrow> string \<Rightarrow> string list \<Rightarrow> (exn + User option) list \<times> session" where
  "login_seq c s e [] = ([], s)"
| "login_seq c s e (p # ps) =
     (case login_user c s e p of
        (r, s1) \<Rightarrow> (case login_seq c s1 e ps of (rs, s2) \<Rightarrow> (r # rs, s2)))"

subsection \<open>A concrete environment\<close>

text \<open>
  Stand-ins for the collaborators, for evaluating the service on concrete inputs: a
  schema that requires an email with an \<open>@\<close> and a password, keeps the email as
  submitted and takes the nickname from the input (a fixed one when absent); a
  credential pair in which a digest is the plaintext behind a prefix; at most three
  failed logins; ASCII lowercasing on both sides. A second environment differs in
  \<open>str_lower\<close> only, which there also maps the Kelvin sign; \<open>kelvin_status\<close> is the
  string \<open>LOC\<close>, Kelvin sign, \<open>ED\<close>, which \<^verbatim>\<open>str.lower\<close> turns into \<open>locked\<close>.
\<close>

definition demo_UserCreate :: "user_data \<Rightarrow> UserCreate_data option" where
  "demo_UserCreate d =
     (case (map_of d ''email'', map_of d ''password'') of
        (Some e, Some p) \<Rightarrow>
          if CHR ''@'' \<in> set e \<and> p \<noteq> [] then
            Some \<lparr>uc_email = e,
                  uc_nickname = (case map_of d ''nickname'' of Some n \<Rightarrow> n | None \<Rightarrow> ''generated_nick''),
                  uc_password = p, uc_role = ANONYMOUS,
                  uc_first_name = map_of d ''first_name'', uc_last_name = map_of d ''last_name''\<rparr>
          else None
      | _ \<Rightarrow> None)"

definition demo_env :: env where
  "demo_env =
     \<lparr>UserCreate = demo_UserCreate,
      hash_password = (\<lambda>p. ''h:'' @ p),
      verify_password = (\<lambda>p h. h = ''h:'' @ p),
      max_login_attempts = 3,
      str_lower = lower,
      sql_lower = lower\<rparr>"

definition kelvin_env :: env where
  "kelvin_env = demo_env\<lparr>str_lower := lower_with_kelvin\<rparr>"

definition kelvin_status :: string where
  "kelvin_status = ''LOC'' @ [CHR 0xE2, CHR 0x84, CHR 0xAA] @ ''ED''"

definition demo_session :: "User list \<Rightarrow> (bool \<times> nat) list \<Rightarrow> session" where
  "demo_session tbl sched =
     \<lparr>rows = tbl, pending = [], schedule = sched, clock = 100, rollbacks = 0, next_id = 7\<rparr>"

definition alice :: User where
  "alice =
     \<lparr>user_id = 1, email = ''a@x.com'', nickname = ''a'', first_name = None, last_name = None,
      hashed_password = ''h:Secret123!'', role = ANONYMOUS, is_professional = False,
      email_verified = True, verification_token = None, is_locked = False,
      failed_login_attempts = 0, last_login_at = None, created_at = 50\<rparr>"

definition bob :: User where
  "bob =
     \<lparr>user_id = 2, email = ''b@x.com'', nickname = ''bob'', first_name = Some ''Bob'',
      last_name = None, hashed_password = ''h:Hunter22!'', role = AUTHENTICATED,
      is_professional = False, email_verified = True, verification_token = None,
      is_locked = False, failed_login_attempts = 2, last_login_at = Some 60, created_at = 55\<rparr>"

definition carol :: User where
  "carol =
     \<lparr>user_id = 3, email = ''c@x.com'', nickname = ''carol'', first_name = None,
      last_name = None, hashed_password = ''h:Pa55word!'', role = ANONYMOUS,
      is_professional = False, email_verified = False, verification_token = Some ''tok123'',
      is_locked = False, failed_login_attempts = 0, last_login_at = None, created_at = 70\<rparr>"

definition dave :: User where
  "dave =
     \<lparr>user_id = 4, email = ''d@x.com'', nickname = ''dave'', first_name = None,
      last_name = None, hashed_password = ''h:Old12345!'', role = MANAGER,
      is_professional = True, email_verified = True, verification_token = None,
      is_locked = True, failed_login_attempts = 3, last_login_at = Some 80, created_at = 75\<rparr>"

definition signup_a :: user_data where
  "signup_a = [(''email'', ''a@x.com''), (''nickname'', ''a''), (''password'', ''Secret123!'')]"


definition no_mail :: EmailService where
  "no_mail = \<lparr>outbox = []\<rparr>"

subsection \<open>Sessions in normal operation\<close>

text \<open>
  A session is healthy when its unit of work is empty (every operation of the service
  leaves it so unless an exception escaped) and the database fails on none of the
  coming round trips.
\<close>

definition healthy :: "session \<Rightarrow> bool" where
  "healthy s = (pending s = [] \<and> list_all (\<lambda>x. \<not> fst x) (schedule s))"

section \<open>Properties of the gateway\<close>

lemma round_trip_frame:
  "\<exists>b s1. round_trip s = (b, s1) \<and> rows s1 = rows s \<and> pending s1 = pending s
      \<and> rollbacks s1 = rollbacks s \<and> next_id s1 = next_id s \<and> clock s \<le> clock s1"
  by (auto simp: round_trip_def split: list.splits)

lemma round_trip_ok:
  assumes "list_all (\<lambda>x. \<not> fst x) (schedule s)"
  shows "\<exists>s1. round_trip s = (False, s1) \<and> rows s1 = rows s \<and> pending s1 = pending s
      \<and> list_all (\<lambda>x. \<not> fst x) (schedule s1) \<and> clock s \<le> clock s1
      \<and> rollbacks s1 = rollbacks s \<and> next_id s1 = next_id s"
  using assms by (auto simp: round_trip_def split: list.splits)

lemma first_run_query: "first (run_query (filter_q select_User P) tbl) = find P tbl"
  by (induction tbl) (auto simp: first_def run_query_def filter_q_def select_User_def split: list.splits)

lemma flushed_clean: "pending s = [] \<Longrightarrow> flushed s = rows s"
  by (simp add: flushed_def)

lemma execute_query_ok:
  assumes "healthy s"
  shows "\<exists>s1. execute_query s q = (Some (run_query q (rows s)), s1) \<and> rows s1 = rows s
      \<and> healthy s1 \<and> clock s \<le> clock s1 \<and> rollbacks s1 = rollbacks s \<and> next_id s1 = next_id s"
proof -
  from assms have p: "pending s = []" and f: "list_all (\<lambda>x. \<not> fst x) (schedule s)"
    by (simp_all add: healthy_def)
  from round_trip_ok [OF f] obtain s1 where
    s1: "round_trip s = (False, s1)" "rows s1 = rows s" "pending s1 = pending s"
      "list_all (\<lambda>x. \<not> fst x) (schedule s1)" "clock s \<le> clock s1"
      "rollbacks s1 = rollbacks s" "next_id s1 = next_id s"
    by blast
  from round_trip_ok [OF s1(4)] obtain s2 where
    s2: "round_trip s1 = (False, s2)" "rows s2 = rows s1" "pending s2 = pending s1"
      "list_all (\<lambda>x. \<not> fst x) (schedule s2)" "clock s1 \<le> clock s2"
      "rollbacks s2 = rollbacks s1" "next_id s2 = next_id s1"
    by blast
  show ?thesis
    using p s1 s2
    by (simp add: execute_query_def session_execute_def session_commit_def flushed_def healthy_def)
qed

lemma execute_query_frame:
  assumes "pending s = []"
  shows "\<exists>r s1. execute_query s q = (r, s1) \<and> (r = None \<or> r = Some (run_query q (rows s)))
      \<and> rows s1 = rows s \<and> pending s1 = []"
proof -
  from round_trip_frame [of s] obtain b s1 where
    s1: "round_trip s = (b, s1)" "rows s1 = rows s" "pending s1 = pending s"
    by blast
  from round_trip_frame [of s1] obtain b2 s2 where
    s2: "round_trip s1 = (b2, s2)" "rows s2 = rows s1" "pending s2 = pending s1"
    by blast
  show ?thesis
    using assms s1 s2
    by (cases b; cases b2)
      (simp_all add: execute_query_def session_execute_def session_commit_def flushed_def
        session_rollback_def)
qed

lemma fetch_user_ok:
  assumes "healthy s"
  shows "\<exists>s1. fetch_user s P = (find P (rows s), s1) \<and> rows s1 = rows s
      \<and> healthy s1 \<and> clock s \<le> clock s1 \<and> rollbacks s1 = rollbacks s \<and> next_id s1 = next_id s"
  using execute_query_ok [OF assms, of "filter_q select_User P"]
  by (auto simp: fetch_user_def first_run_query)

lemma fetch_user_frame:
  assumes "pending s = []"
  shows "\<exists>r s1. fetch_user s P = (r, s1) \<and> (r = None \<or> r = find P (rows s))
      \<and> rows s1 = rows s \<and> pending s1 = []"
  using execute_query_frame [OF assms, of "filter_q select_User P"]
  by (auto simp: fetch_user_def first_run_query)

lemma commit_add_ok:
  assumes "healthy s"
  shows "\<exists>s1. session_commit (session_add s u) = (Inr (), s1) \<and> rows s1 = upsert u (rows s)
      \<and> healthy s1 \<and> clock s \<le> clock s1 \<and> rollbacks s1 = rollbacks s \<and> next_id s1 = next_id s"
proof -
  from assms have p: "pending s = []" and f: "list_all (\<lambda>x. \<not> fst x) (schedule (session_add s u))"
    by (simp_all add: healthy_def session_add_def)
  from round_trip_ok [OF f] obtain s1 where
    s1: "round_trip (session_add s u) = (False, s1)" "rows s1 = rows (session_add s u)"
      "pending s1 = pending (session_add s u)"
      "list_all (\<lambda>x. \<not> fst x) (schedule s1)" "clock (session_add s u) \<le> clock s1"
      "rollbacks s1 = rollbacks (session_add s u)" "next_id s1 = next_id (session_add s u)"
    by blast
  show ?thesis
    using p s1
    by (simp add: session_commit_def flushed_def healthy_def session_add_def)
qed

lemma find_upsert_id:
  assumes "find (\<lambda>u. user_id u = i) tbl = Some a" and "user_id v = i"
  shows "find (\<lambda>u. user_id u = i) (upsert v tbl) = Some v"
proof -
  from assms(1) have ex: "list_ex (\<lambda>r. user_id r = user_id v) tbl"
    using assms(2) by (auto simp: find_Some_iff list_ex_iff)
  have "find (\<lambda>u. user_id u = i) (map (\<lambda>r. if user_id r = i then v else r) tbl) = Some v"
    using assms by (induction tbl) (auto split: if_splits)
  with ex assms(2) show ?thesis by (simp add: upsert_def)
qed

lemma find_upsert_email:
  assumes "find (\<lambda>u. email u = e) tbl = Some a" and "user_id v = user_id a" and "email v = e"
  shows "find (\<lambda>u. email u = e) (upsert v tbl) = Some v"
proof -
  from assms(1) have ex: "list_ex (\<lambda>r. user_id r = user_id v) tbl"
    using assms(2) by (auto simp: find_Some_iff list_ex_iff)
  have "find (\<lambda>u. email u = e) (map (\<lambda>r. if user_id r = user_id a then v else r) tbl) = Some v"
    using assms(1,3) by (induction tbl) (auto split: if_splits)
  with ex assms(2) show ?thesis by (simp add: upsert_def)
qed

section \<open>Properties of login and verification shared by the results below\<close>

lemma login_correct_password:
  assumes "healthy s"
    and "find (\<lambda>u. email u = e) (rows s) = Some a"
    and "email_verified a" and "\<not> is_locked a"
    and "verify_password c password (hashed_password a)"
  shows "\<exists>t s'. login_user c s e password
              = (Inr (Some (a\<lparr>failed_login_attempts := 0, last_login_at := Some t\<rparr>)), s')
          \<and> clock s \<le> t \<and> healthy s'
          \<and> rows s' = upsert (a\<lparr>failed_login_attempts := 0, last_login_at := Some t\<rparr>) (rows s)
          \<and> find (\<lambda>u. email u = e) (rows s')
              = Some (a\<lparr>failed_login_attempts := 0, last_login_at := Some t\<rparr>)"
proof -
  from fetch_user_ok [OF assms(1), of "\<lambda>u. email u = e"] obtain s1 where
    s1: "fetch_user s (\<lambda>u. email u = e) = (Some a, s1)" "rows s1 = rows s" "healthy s1"
      "clock s \<le> clock s1"
    using assms(2) by auto
  let ?a = "a\<lparr>failed_login_attempts := 0, last_login_at := Some (clock s1)\<rparr>"
  from commit_add_ok [OF s1(3), of ?a] obtain s2 where
    s2: "session_commit (session_add s1 ?a) = (Inr (), s2)" "rows s2 = upsert ?a (rows s1)"
      "healthy s2"
    by blast
  have e: "email a = e"
    using assms(2) by (auto simp: find_Some_iff)
  have run: "login_user c s e password = (Inr (Some ?a), s2)"
    using s1(1) s2(1) assms(3,4,5) by (simp add: login_user_def get_by_email_def)
  have "find (\<lambda>u. email u = e) (rows s2) = Some ?a"
    using find_upsert_email [OF assms(2), of ?a] s1(2) s2(2) e by simp
  with run s1(2,4) s2(2,3) show ?thesis by auto
qed

lemma login_blocked:
  assumes "pending s = []"
    and "find (\<lambda>u. email u = e) (rows s) = None
         \<or> (\<exists>a. find (\<lambda>u. email u = e) (rows s) = Some a
                \<and> (\<not> email_verified a \<or> is_locked a))"
  shows "\<exists>s'. login_user c s e password = (Inr None, s') \<and> rows s' = rows s
          \<and> pending s' = []"
proof -
  from fetch_user_frame [OF assms(1), of "\<lambda>u. email u = e"] obtain r s1 where
    s1: "fetch_user s (\<lambda>u. email u = e) = (r, s1)"
      "r = None \<or> r = find (\<lambda>u. email u = e) (rows s)" "rows s1 = rows s"
      "pending s1 = []"
    by blast
  show ?thesis
  proof (cases r)
    case None
    with s1 show ?thesis by (simp add: login_user_def get_by_email_def)
  next
    case (Some u)
    with s1(2) assms(2) have early: "\<not> email_verified u \<or> is_locked u" by auto
    from Some s1(1) have "fetch_user s (\<lambda>u. email u = e) = (Some u, s1)" by simp
    with early s1(3,4) show ?thesis by (auto simp: login_user_def get_by_email_def)
  qed
qed

lemma login_wrong_password:
  assumes "healthy s"
    and "find (\<lambda>u. email u = e) (rows s) = Some a"
    and "email_verified a" and "\<not> is_locked a"
    and "\<not> verify_password c password (hashed_password a)"
  shows "\<exists>s'. login_user c s e password = (Inr None, s') \<and> healthy s'
          \<and> find (\<lambda>u. email u = e) (rows s')
              = Some (if max_login_attempts c \<le> failed_login_attempts a + 1
                      then a\<lparr>failed_login_attempts := failed_login_attempts a + 1,
                             is_locked := True\<rparr>
                      else a\<lparr>failed_login_attempts := failed_login_attempts a + 1\<rparr>)"
proof -
  from fetch_user_ok [OF assms(1), of "\<lambda>u. email u = e"] obtain s1 where
    s1: "fetch_user s (\<lambda>u. email u = e) = (Some a, s1)" "rows s1 = rows s" "healthy s1"
    using assms(2) by auto
  let ?a = "if max_login_attempts c \<le> failed_login_attempts a + 1
            then a\<lparr>failed_login_attempts := failed_login_attempts a + 1, is_locked := True\<rparr>
            else a\<lparr>failed_login_attempts := failed_login_attempts a + 1\<rparr>"
  from commit_add_ok [OF s1(3), of ?a] obtain s2 where
    s2: "session_commit (session_add s1 ?a) = (Inr (), s2)" "rows s2 = upsert ?a (rows s1)"
      "healthy s2"
    by blast
  have e: "email a = e"
    using assms(2) by (auto simp: find_Some_iff)
  have run: "login_user c s e password = (Inr None, s2)"
    using s1(1) s2(1) assms(3,4,5) by (simp add: login_user_def get_by_email_def Let_def)
  have "find (\<lambda>u. email u = e) (rows s2) = Some ?a"
    using find_upsert_email [OF assms(2), of ?a] s1(2) s2(2) e by simp
  with run s2(3) show ?thesis by blast
qed

lemma login_seq_append:
  "login_seq c s e (xs @ ys) =
     (case login_seq c s e xs of
        (rs, s1) \<Rightarrow> (case login_seq c s1 e ys of (rs', s2) \<Rightarrow> (rs @ rs', s2)))"
  by (induction xs arbitrary: s) (auto split: prod.splits)

lemma login_seq_below_max:
  assumes "healthy s"
    and "find (\<lambda>u. email u = e) (rows s) = Some a"
    and "email_verified a" and "\<not> is_locked a"
    and "\<forall>p \<in> set ps. \<not> verify_password c p (hashed_password a)"
    and "failed_login_attempts a + int (length ps) < max_login_attempts c"
  shows "\<exists>s'. login_seq c s e ps = (replicate (length ps) (Inr None), s') \<and> healthy s'
          \<and> find (\<lambda>u. email u = e) (rows s')
              = Some (a\<lparr>failed_login_attempts := failed_login_attempts a + int (length ps)\<rparr>)"
  using assms
proof (induction ps arbitrary: s a)
  case Nil
  then show ?case by simp
next
  case (Cons p ps)
  let ?a = "a\<lparr>failed_login_attempts := failed_login_attempts a + 1\<rparr>"
  from Cons.prems have wrong: "\<not> verify_password c p (hashed_password a)" by simp
  from Cons.prems have below: "\<not> max_login_attempts c \<le> failed_login_attempts a + 1" by simp
  from login_wrong_password [OF Cons.prems(1,2,3,4) wrong] below obtain s1 where
    s1: "login_user c s e p = (Inr None, s1)" "healthy s1"
      "find (\<lambda>u. email u = e) (rows s1) = Some ?a"
    by auto
  have "\<exists>s'. login_seq c s1 e ps = (replicate (length ps) (Inr None), s') \<and> healthy s'
          \<and> find (\<lambda>u. email u = e) (rows s')
              = Some (?a\<lparr>failed_login_attempts := failed_login_attempts ?a + int (length ps)\<rparr>)"
    using Cons.prems by (intro Cons.IH [OF s1(2,3)]) simp_all
  then obtain s2 where
    s2: "login_seq c s1 e ps = (replicate (length ps) (Inr None), s2)" "healthy s2"
      "find (\<lambda>u. email u = e) (rows s2)
         = Some (?a\<lparr>failed_login_attempts := failed_login_attempts ?a + int (length ps)\<rparr>)"
    by blast
  have "?a\<lparr>failed_login_attempts := failed_login_attempts ?a + int (length ps)\<rparr>
        = a\<lparr>failed_login_attempts := failed_login_attempts a + int (length (p # ps))\<rparr>"
    by (simp add: add.assoc)
  with s1(1) s2 show ?case by simp
qed

lemma verify_email_already_verified:
  assumes "pending s = []"
    and "find (\<lambda>u. user_id u = i) (rows s) = Some a" and "email_verified a"
  shows "fst (verify_email_with_token s i token) = Inr False"
proof -
  from fetch_user_frame [OF assms(1), of "\<lambda>u. user_id u = i"] obtain r s1 where
    s1: "fetch_user s (\<lambda>u. user_id u = i) = (r, s1)"
      "r = None \<or> r = find (\<lambda>u. user_id u = i) (rows s)"
    by blast
  show ?thesis
  proof (cases r)
    case None
    with s1 show ?thesis by (simp add: verify_email_with_token_def get_by_id_def)
  next
    case (Some u)
    with s1(2) assms(2) have "u = a" by auto
    with Some s1(1) have "fetch_user s (\<lambda>u. user_id u = i) = (Some a, s1)" by simp
    with assms(3) show ?thesis
      by (simp add: verify_email_with_token_def get_by_id_def)
  qed
qed

section \<open>Properties of search\<close>

lemma wheres_if_filter_q:
  "list_all (\<lambda>p. p u) (wheres (if b then filter_q q f else q))
     = (list_all (\<lambda>p. p u) (wheres q) \<and> (b \<longrightarrow> f u))"
  by (simp add: filter_q_def)

lemma wheres_case_filter_q:
  "list_all (\<lambda>p. p u) (wheres (case x of Some d \<Rightarrow> filter_q q (f d) | None \<Rightarrow> q))
     = (list_all (\<lambda>p. p u) (wheres q) \<and> (case x of Some d \<Rightarrow> f d u | None \<Rightarrow> True))"
  by (simp add: filter_q_def split: option.splits)

lemma run_query_window:
  "run_query (q\<lparr>offset := skip, limit := Some lim\<rparr>) tbl
     = take lim (drop skip (filter (\<lambda>u. list_all (\<lambda>p. p u) (wheres q)) tbl))"
  by (simp add: run_query_def)

lemma execute_query_mapped:
  assumes "healthy s"
  shows "fst (case execute_query s q of
                (Some users, s1) \<Rightarrow> (map to_response users, s1)
              | (None, s1) \<Rightarrow> ([], s1))
     = map to_response (run_query q (rows s))"
  using execute_query_ok [OF assms, of q] by auto

lemma search_users_result:
  assumes "healthy s"
  shows "fst (search_users c s un em fn ln rl st df dt skip lim)
     = map to_response (take lim (drop skip (filter
         (\<lambda>u. other_filters c un em fn ln rl df dt u
               \<and> (truthy st \<longrightarrow> is_locked u = (str_lower c (str_of st) = ''locked'')))
         (rows s))))"
  unfolding search_users_def Let_def execute_query_mapped [OF assms] run_query_window
  by (simp add: wheres_if_filter_q wheres_case_filter_q select_User_def other_filters_def
        conj_ac)

section \<open>Account creation\<close>

text \<open>
  Claim C1: every successful call of \<^verbatim>\<open>create\<close> generates a verification token for
  the new account and queues a verification email with the email collaborator before it
  returns. The code accepts the email service and imports the token generator, and calls
  neither: on an empty table the signup below succeeds, yet the account it returns and
  stores has no verification token and the outbox of the email service is still empty.
\<close>

theorem create_sends_no_verification:
  "fst (create demo_env (demo_session [] []) signup_a no_mail)
     = Inr (Some \<lparr>user_id = 7, email = ''a@x.com'', nickname = ''a'', first_name = None,
          last_name = None, hashed_password = ''h:Secret123!'', role = ANONYMOUS,
          is_professional = False, email_verified = False, verification_token = None,
          is_locked = False, failed_login_attempts = 0, last_login_at = None,
          created_at = 100\<rparr>)
   \<and> outbox (snd (snd (create demo_env (demo_session [] []) signup_a no_mail))) = []"
  by (simp add: create_def demo_env_def demo_session_def signup_a_def no_mail_def
        demo_UserCreate_def get_by_email_def get_by_nickname_def fetch_user_def
        execute_query_def session_execute_def session_commit_def round_trip_def
        run_query_def filter_q_def select_User_def flushed_def first_def new_User_def
        session_add_def upsert_def Let_def)

text \<open>
  Claim C2: in every operation, a failure of the persistence gateway is caught inside the
  service, the session is rolled back and the operation returns its absence value; no
  persistence exception leaves the service. The code does this for what goes through
  \<^verbatim>\<open>_execute_query\<close> only. When the \<^verbatim>\<open>commit\<close> that stores the new account fails,
  \<^verbatim>\<open>create\<close> lets \<^verbatim>\<open>SQLAlchemyError\<close> out and no rollback has happened; the same
  holds for the \<^verbatim>\<open>commit\<close> of \<^verbatim>\<open>delete\<close>. A failing lookup, in contrast, is
  absorbed: it returns \<^verbatim>\<open>None\<close> after one rollback.
\<close>

theorem create_commit_failure_escapes:
  "fst (create demo_env
          (demo_session [] [(False, 1), (False, 1), (False, 1), (False, 1), (True, 1)])
          signup_a no_mail) = Inl SQLAlchemyError
   \<and> rollbacks (fst (snd (create demo_env
          (demo_session [] [(False, 1), (False, 1), (False, 1), (False, 1), (True, 1)])
          signup_a no_mail))) = 0
   \<and> fst (delete (demo_session [alice] [(False, 1), (False, 1), (True, 1)]) 1)
       = Inl SQLAlchemyError
   \<and> rollbacks (snd (delete (demo_session [alice] [(False, 1), (False, 1), (True, 1)]) 1)) = 0
   \<and> fst (get_by_email (demo_session [alice] [(True, 1)]) ''a@x.com'') = None
   \<and> rollbacks (snd (get_by_email (demo_session [alice] [(True, 1)]) ''a@x.com'')) = 1"
  by (simp add: create_def delete_def session_rollback_def demo_env_def demo_session_def signup_a_def no_mail_def
        demo_UserCreate_def get_by_email_def get_by_nickname_def get_by_id_def fetch_user_def
        execute_query_def session_execute_def session_commit_def round_trip_def
        run_query_def filter_q_def select_User_def flushed_def first_def new_User_def
        session_add_def session_delete_def upsert_def alice_def Let_def)





section \<open>Login\<close>

text \<open>
  Claim C5: for every verified, unlocked account, \<^verbatim>\<open>login_user\<close> with the correct
  password returns the account with \<open>failed_login_attempts\<close> reset to 0 and
  \<open>last_login_at\<close> set to a reading \<open>t\<close> of the clock that is not before the time
  of the call; the same record is the one stored. The session is healthy and the account
  is the one its email leads to.
\<close>

theorem login_success:
  assumes "healthy s"
    and "find (\<lambda>u. email u = e) (rows s) = Some a"
    and "email_verified a" and "\<not> is_locked a"
    and "verify_password c password (hashed_password a)"
  shows "\<exists>t s'. login_user c s e password
              = (Inr (Some (a\<lparr>failed_login_attempts := 0, last_login_at := Some t\<rparr>)), s')
          \<and> clock s \<le> t
          \<and> find (\<lambda>u. email u = e) (rows s')
              = Some (a\<lparr>failed_login_attempts := 0, last_login_at := Some t\<rparr>)"
  using login_correct_password [OF assms] by blast

theorem login_success_witness:
  "healthy (demo_session [alice, bob] [(False, 2), (False, 3), (False, 1)])
   \<and> failed_login_attempts bob = 2
   \<and> (\<exists>t s'. login_user demo_env (demo_session [alice, bob] [(False, 2), (False, 3), (False, 1)])
                ''b@x.com'' ''Hunter22!''
              = (Inr (Some (bob\<lparr>failed_login_attempts := 0, last_login_at := Some t\<rparr>)), s')
          \<and> 100 \<le> t)"
proof -
  have h: "healthy (demo_session [alice, bob] [(False, 2), (False, 3), (False, 1)])"
    by (simp add: healthy_def demo_session_def)
  have f: "find (\<lambda>u. email u = ''b@x.com'')
      (rows (demo_session [alice, bob] [(False, 2), (False, 3), (False, 1)])) = Some bob"
    by (simp add: demo_session_def alice_def bob_def)
  have v: "email_verified bob" and l: "\<not> is_locked bob"
    by (simp_all add: bob_def)
  have p: "verify_password demo_env ''Hunter22!'' (hashed_password bob)"
    by (simp add: demo_env_def bob_def)
  have c: "clock (demo_session [alice, bob] [(False, 2), (False, 3), (False, 1)]) = 100"
    by (simp add: demo_session_def)
  from login_success [OF h f v l p] h c show ?thesis
    by (auto simp: bob_def)
qed

text \<open>
  Claim C9: a call of \<^verbatim>\<open>login_user\<close> that ends before the password check, because
  no account has the email, or the account is unverified, or it is locked, returns no
  account, leaves every row of the table as it was and leaves nothing in the unit of
  work that a later commit could write, whatever the password and whether or not the
  gateway fails during the lookup: no counter is incremented, and \<open>is_locked\<close> and
  \<open>last_login_at\<close> keep their values.
\<close>

theorem login_early_exit_frame:
  assumes "pending s = []"
    and "find (\<lambda>u. email u = e) (rows s) = None
         \<or> (\<exists>a. find (\<lambda>u. email u = e) (rows s) = Some a
                \<and> (\<not> email_verified a \<or> is_locked a))"
  shows "\<exists>s'. login_user c s e password = (Inr None, s') \<and> rows s' = rows s
          \<and> pending s' = []"
  using login_blocked [OF assms] .

theorem login_early_exit_frame_witness:
  "pending (demo_session [carol, dave] []) = []
   \<and> \<not> verify_password demo_env ''wrong'' (hashed_password dave)
   \<and> (\<exists>s'. login_user demo_env (demo_session [carol, dave] []) ''d@x.com'' ''wrong''
             = (Inr None, s') \<and> rows s' = [carol, dave] \<and> pending s' = [])
   \<and> (\<exists>s'. login_user demo_env (demo_session [carol, dave] []) ''c@x.com'' ''wrong''
             = (Inr None, s') \<and> rows s' = [carol, dave] \<and> pending s' = [])
   \<and> (\<exists>s'. login_user demo_env (demo_session [carol, dave] []) ''nobody@x.com'' ''wrong''
             = (Inr None, s') \<and> rows s' = [carol, dave] \<and> pending s' = [])"
proof -
  have p: "pending (demo_session [carol, dave] []) = []"
    and r: "rows (demo_session [carol, dave] []) = [carol, dave]"
    by (simp_all add: demo_session_def)
  have w: "\<not> verify_password demo_env ''wrong'' (hashed_password dave)"
    by (simp add: demo_env_def dave_def)
  have d: "find (\<lambda>u. email u = ''d@x.com'') (rows (demo_session [carol, dave] [])) = Some dave"
    "is_locked dave"
    by (simp_all add: demo_session_def carol_def dave_def)
  have c: "find (\<lambda>u. email u = ''c@x.com'') (rows (demo_session [carol, dave] [])) = Some carol"
    "\<not> email_verified carol"
    by (simp_all add: demo_session_def carol_def dave_def)
  have n: "find (\<lambda>u. email u = ''nobody@x.com'') (rows (demo_session [carol, dave] [])) = None"
    by (simp add: demo_session_def carol_def dave_def)
  from login_early_exit_frame [OF p, of "''d@x.com''" demo_env "''wrong''"] d r
  have one: "\<exists>s'. login_user demo_env (demo_session [carol, dave] []) ''d@x.com'' ''wrong''
             = (Inr None, s') \<and> rows s' = [carol, dave] \<and> pending s' = []"
    by simp
  from login_early_exit_frame [OF p, of "''c@x.com''" demo_env "''wrong''"] c r
  have two: "\<exists>s'. login_user demo_env (demo_session [carol, dave] []) ''c@x.com'' ''wrong''
             = (Inr None, s') \<and> rows s' = [carol, dave] \<and> pending s' = []"
    by simp
  from login_early_exit_frame [OF p, of "''nobody@x.com''" demo_env "''wrong''"] n r
  have three: "\<exists>s'. login_user demo_env (demo_session [carol, dave] []) ''nobody@x.com''
             ''wrong'' = (Inr None, s') \<and> rows s' = [carol, dave] \<and> pending s' = []"
    by simp
  from p w one two three show ?thesis by blast
qed

text \<open>
  Claim C4: take a verified, unlocked account with no failed attempts and \<open>N\<close>
  consecutive calls of \<^verbatim>\<open>login_user\<close> with wrong passwords, \<open>N \<ge> 1\<close> being the
  configured maximum. Every call returns no account; after any \<open>k < N\<close> of them the
  account is stored with \<open>k\<close> failed attempts and still unlocked; after the \<open>N\<close>-th it
  is stored locked with \<open>N\<close> failed attempts; and the next call returns no account
  whatever password is supplied, the correct one included.
\<close>

theorem lockout_after_max_failures:
  assumes "healthy s"
    and "find (\<lambda>u. email u = e) (rows s) = Some a"
    and "email_verified a" and "\<not> is_locked a" and "failed_login_attempts a = 0"
    and "ps \<noteq> []" and "max_login_attempts c = int (length ps)"
    and "\<forall>p \<in> set ps. \<not> verify_password c p (hashed_password a)"
  shows "\<exists>s'. login_seq c s e ps = (replicate (length ps) (Inr None), s')
          \<and> find (\<lambda>u. email u = e) (rows s')
              = Some (a\<lparr>failed_login_attempts := int (length ps), is_locked := True\<rparr>)
          \<and> (\<forall>k < length ps. \<exists>sk.
                login_seq c s e (take k ps) = (replicate k (Inr None), sk)
                \<and> find (\<lambda>u. email u = e) (rows sk) = Some (a\<lparr>failed_login_attempts := int k\<rparr>))
          \<and> (\<forall>password sched.
                fst (login_user c (s'\<lparr>schedule := sched\<rparr>) e password) = Inr None)"
proof -
  have before: "\<exists>sk. login_seq c s e (take k ps) = (replicate k (Inr None), sk) \<and> healthy sk
      \<and> find (\<lambda>u. email u = e) (rows sk) = Some (a\<lparr>failed_login_attempts := int k\<rparr>)"
    if "k < length ps" for k
  proof -
    have "\<forall>p \<in> set (take k ps). \<not> verify_password c p (hashed_password a)"
      using assms(8) by (meson in_set_takeD)
    moreover have "failed_login_attempts a + int (length (take k ps)) < max_login_attempts c"
      using that assms(5,7) by simp
    ultimately show ?thesis
      using login_seq_below_max [OF assms(1,2,3,4), of "take k ps" c] that assms(5) by simp
  qed
  let ?n = "length ps - 1"
  have split: "ps = take ?n ps @ [last ps]"
    using assms(6) by (metis append_butlast_last_id butlast_conv_take)
  from before [of ?n] assms(6) obtain s1 where
    s1: "login_seq c s e (take ?n ps) = (replicate ?n (Inr None), s1)" "healthy s1"
      "find (\<lambda>u. email u = e) (rows s1) = Some (a\<lparr>failed_login_attempts := int ?n\<rparr>)"
    by auto
  let ?a = "a\<lparr>failed_login_attempts := int ?n\<rparr>"
  have wrong: "\<not> verify_password c (last ps) (hashed_password ?a)"
    using assms(6,8) by simp
  have reach: "max_login_attempts c \<le> failed_login_attempts ?a + 1"
    using assms(6,7) by (cases ps) simp_all
  from login_wrong_password [OF s1(2,3) _ _ wrong] assms(3,4) reach obtain s2 where
    s2: "login_user c s1 e (last ps) = (Inr None, s2)" "healthy s2"
      "find (\<lambda>u. email u = e) (rows s2)
         = Some (?a\<lparr>failed_login_attempts := failed_login_attempts ?a + 1, is_locked := True\<rparr>)"
    by auto
  have n: "int ?n + 1 = int (length ps)"
    using assms(6) by (cases ps) simp_all
  have found: "find (\<lambda>u. email u = e) (rows s2)
         = Some (a\<lparr>failed_login_attempts := int (length ps), is_locked := True\<rparr>)"
    using s2(3) n by simp
  have "login_seq c s e (take ?n ps @ [last ps]) = (replicate ?n (Inr None) @ [Inr None], s2)"
    using s1(1) s2(1) by (simp add: login_seq_append)
  moreover have "replicate ?n (Inr None) @ [Inr None]
      = replicate (length ps) (Inr None :: exn + User option)"
    using assms(6) by (cases ps) (simp_all add: replicate_append_same)
  ultimately have run: "login_seq c s e ps = (replicate (length ps) (Inr None), s2)"
    using split by simp
  have after: "fst (login_user c (s2\<lparr>schedule := sched\<rparr>) e password) = Inr None"
    for password sched
  proof -
    have "pending (s2\<lparr>schedule := sched\<rparr>) = []"
      using s2(2) by (simp add: healthy_def)
    from login_blocked [OF this, of e c password] found show ?thesis by auto
  qed
  from run found before after show ?thesis by blast
qed

theorem lockout_after_max_failures_witness:
  "healthy (demo_session [alice] [])
   \<and> max_login_attempts demo_env = 3
   \<and> (\<exists>s'. login_seq demo_env (demo_session [alice] []) ''a@x.com'' [''x'', ''y'', ''z'']
              = ([Inr None, Inr None, Inr None], s')
          \<and> find (\<lambda>u. email u = ''a@x.com'') (rows s')
              = Some (alice\<lparr>failed_login_attempts := 3, is_locked := True\<rparr>)
          \<and> fst (login_user demo_env s' ''a@x.com'' ''Secret123!'') = Inr None)"
proof -
  have h: "healthy (demo_session [alice] [])"
    by (simp add: healthy_def demo_session_def)
  have f: "find (\<lambda>u. email u = ''a@x.com'') (rows (demo_session [alice] [])) = Some alice"
    by (simp add: demo_session_def alice_def)
  have v: "email_verified alice" and l: "\<not> is_locked alice"
    and z: "failed_login_attempts alice = 0"
    by (simp_all add: alice_def)
  have n: "[''x'', ''y'', ''z''] \<noteq> []" by simp
  have m: "max_login_attempts demo_env = int (length [''x'', ''y'', ''z''])"
    by (simp add: demo_env_def)
  have w: "\<forall>p \<in> set [''x'', ''y'', ''z'']. \<not> verify_password demo_env p (hashed_password alice)"
    by (simp add: demo_env_def alice_def)
  from lockout_after_max_failures [OF h f v l z n m w] obtain s' where
    s': "login_seq demo_env (demo_session [alice] []) ''a@x.com'' [''x'', ''y'', ''z'']
           = (replicate (length [''x'', ''y'', ''z'']) (Inr None), s')"
      "find (\<lambda>u. email u = ''a@x.com'') (rows s')
         = Some (alice\<lparr>failed_login_attempts := int (length [''x'', ''y'', ''z'']),
                        is_locked := True\<rparr>)"
      "\<forall>password sched.
         fst (login_user demo_env (s'\<lparr>schedule := sched\<rparr>) ''a@x.com'' password) = Inr None"
    by blast
  from s'(3) have "fst (login_user demo_env (s'\<lparr>schedule := schedule s'\<rparr>) ''a@x.com''
      ''Secret123!'') = Inr None"
    by blast
  with s'(1,2) h m show ?thesis
    by (auto simp: numeral_3_eq_3)
qed

section \<open>Email verification\<close>

text \<open>
  Claim C6: for an account that is not yet verified and whose stored token is the
  supplied one, \<^verbatim>\<open>verify_email_with_token\<close> returns true and stores the account with
  \<open>email_verified\<close> true, the token cleared and the role \<open>AUTHENTICATED\<close> exactly
  when it was \<open>ANONYMOUS\<close> (any other role is kept); every other field and every
  other row is unchanged. Any later call for the same account, with the same or any other
  token and whether or not the gateway fails, returns false.
\<close>

theorem verify_email_correct_token:
  assumes "healthy s"
    and "find (\<lambda>u. user_id u = i) (rows s) = Some a"
    and "\<not> email_verified a" and "verification_token a = Some token"
  shows "\<exists>s'. verify_email_with_token s i token = (Inr True, s')
          \<and> rows s' = upsert (a\<lparr>email_verified := True, verification_token := None,
                 role := (if role a = ANONYMOUS then AUTHENTICATED else role a)\<rparr>) (rows s)
          \<and> find (\<lambda>u. user_id u = i) (rows s')
              = Some (a\<lparr>email_verified := True, verification_token := None,
                 role := (if role a = ANONYMOUS then AUTHENTICATED else role a)\<rparr>)
          \<and> (\<forall>token' sched.
                fst (verify_email_with_token (s'\<lparr>schedule := sched\<rparr>) i token') = Inr False)"
proof -
  let ?a = "a\<lparr>email_verified := True, verification_token := None,
                 role := (if role a = ANONYMOUS then AUTHENTICATED else role a)\<rparr>"
  from fetch_user_ok [OF assms(1), of "\<lambda>u. user_id u = i"] obtain s1 where
    s1: "fetch_user s (\<lambda>u. user_id u = i) = (Some a, s1)" "rows s1 = rows s" "healthy s1"
    using assms(2) by auto
  from commit_add_ok [OF s1(3), of ?a] obtain s2 where
    s2: "session_commit (session_add s1 ?a) = (Inr (), s2)" "rows s2 = upsert ?a (rows s1)"
      "healthy s2"
    by blast
  have i: "user_id a = i"
    using assms(2) by (auto simp: find_Some_iff)
  have run: "verify_email_with_token s i token = (Inr True, s2)"
    using s1(1) s2(1) assms(3,4) by (simp add: verify_email_with_token_def get_by_id_def)
  have found: "find (\<lambda>u. user_id u = i) (rows s2) = Some ?a"
    using find_upsert_id [OF assms(2), of ?a] s1(2) s2(2) i by simp
  have again: "fst (verify_email_with_token (s2\<lparr>schedule := sched\<rparr>) i token') = Inr False"
    for token' sched
  proof (rule verify_email_already_verified)
    show "pending (s2\<lparr>schedule := sched\<rparr>) = []"
      using s2(3) by (simp add: healthy_def)
    show "find (\<lambda>u. user_id u = i) (rows (s2\<lparr>schedule := sched\<rparr>)) = Some ?a"
      using found by simp
    show "email_verified ?a" by simp
  qed
  from run s2(2) s1(2) found again show ?thesis by auto
qed

theorem verify_email_correct_token_witness:
  "healthy (demo_session [bob, carol] [])
   \<and> role carol = ANONYMOUS
   \<and> (\<exists>s'. verify_email_with_token (demo_session [bob, carol] []) 3 ''tok123'' = (Inr True, s')
          \<and> rows s' = [bob, carol\<lparr>email_verified := True, verification_token := None,
                                  role := AUTHENTICATED\<rparr>]
          \<and> fst (verify_email_with_token s' 3 ''tok123'') = Inr False)"
proof -
  have h: "healthy (demo_session [bob, carol] [])"
    by (simp add: healthy_def demo_session_def)
  have f: "find (\<lambda>u. user_id u = 3) (rows (demo_session [bob, carol] [])) = Some carol"
    by (simp add: demo_session_def bob_def carol_def)
  have v: "\<not> email_verified carol" and t: "verification_token carol = Some ''tok123''"
    and r: "role carol = ANONYMOUS"
    by (simp_all add: carol_def)
  from verify_email_correct_token [OF h f v t] obtain s' where
    s': "verify_email_with_token (demo_session [bob, carol] []) 3 ''tok123'' = (Inr True, s')"
      "rows s' = upsert (carol\<lparr>email_verified := True, verification_token := None,
                 role := (if role carol = ANONYMOUS then AUTHENTICATED else role carol)\<rparr>)
           (rows (demo_session [bob, carol] []))"
      "\<forall>token' sched.
         fst (verify_email_with_token (s'\<lparr>schedule := sched\<rparr>) 3 token') = Inr False"
    by blast
  from s'(3) have "fst (verify_email_with_token (s'\<lparr>schedule := schedule s'\<rparr>) 3 ''tok123'')
      = Inr False"
    by blast
  moreover have "rows s' = [bob, carol\<lparr>email_verified := True, verification_token := None,
                                  role := AUTHENTICATED\<rparr>]"
    using s'(2) by (simp add: upsert_def demo_session_def bob_def carol_def)
  ultimately show ?thesis
    using h r s'(1) by auto
qed

text \<open>
  Claim C7: for every account and every call of \<^verbatim>\<open>verify_email_with_token\<close> whose
  token is not the stored one, the call returns false, the table, hence every field of
  the account, is unchanged, and nothing is left in the unit of work that a later commit
  could write.
\<close>

theorem verify_email_wrong_token:
  assumes "pending s = []"
    and "find (\<lambda>u. user_id u = i) (rows s) = Some a"
    and "verification_token a \<noteq> Some token"
  shows "\<exists>s'. verify_email_with_token s i token = (Inr False, s') \<and> rows s' = rows s
          \<and> pending s' = []"
proof -
  from fetch_user_frame [OF assms(1), of "\<lambda>u. user_id u = i"] obtain r s1 where
    s1: "fetch_user s (\<lambda>u. user_id u = i) = (r, s1)"
      "r = None \<or> r = find (\<lambda>u. user_id u = i) (rows s)" "rows s1 = rows s"
      "pending s1 = []"
    by blast
  show ?thesis
  proof (cases r)
    case None
    with s1 show ?thesis by (simp add: verify_email_with_token_def get_by_id_def)
  next
    case (Some u)
    with s1(2) assms(2) have "u = a" by auto
    with Some s1(1) have "fetch_user s (\<lambda>u. user_id u = i) = (Some a, s1)" by simp
    with s1(3,4) assms(3) show ?thesis
      by (simp add: verify_email_with_token_def get_by_id_def)
  qed
qed

theorem verify_email_wrong_token_witness:
  "pending (demo_session [bob, carol] [(False, 1), (False, 1)]) = []
   \<and> verification_token carol \<noteq> Some ''tok124''
   \<and> (\<exists>s'. verify_email_with_token (demo_session [bob, carol] [(False, 1), (False, 1)]) 3
              ''tok124'' = (Inr False, s')
          \<and> rows s' = [bob, carol] \<and> pending s' = [])"
proof -
  have p: "pending (demo_session [bob, carol] [(False, 1), (False, 1)]) = []"
    by (simp add: demo_session_def)
  have f: "find (\<lambda>u. user_id u = 3) (rows (demo_session [bob, carol] [(False, 1), (False, 1)]))
      = Some carol"
    by (simp add: demo_session_def bob_def carol_def)
  have t: "verification_token carol \<noteq> Some ''tok124''"
    by (simp add: carol_def)
  from verify_email_wrong_token [OF p f t] p t show ?thesis
    by (simp add: demo_session_def)
qed

section \<open>Password reset\<close>

text \<open>
  Claim C8: for every existing account, whatever its lock and its counter were,
  \<^verbatim>\<open>reset_password\<close> returns true and stores the account with the digest of the new
  password, \<open>failed_login_attempts\<close> 0 and \<open>is_locked\<close> false. If the account is
  verified (and is the one its email leads to, and the credential functions agree on the
  new password), a login with the new password right after returns the account. For an
  identifier no account has, \<^verbatim>\<open>reset_password\<close> returns false and changes nothing.
\<close>

theorem reset_password_unlocks:
  assumes "healthy s"
  shows "(find (\<lambda>u. user_id u = i) (rows s) = Some a \<longrightarrow>
            (\<exists>s'. reset_password c s i new_password = (Inr True, s')
               \<and> find (\<lambda>u. user_id u = i) (rows s')
                   = Some (a\<lparr>hashed_password := hash_password c new_password,
                             failed_login_attempts := 0, is_locked := False\<rparr>)
               \<and> rows s' = upsert (a\<lparr>hashed_password := hash_password c new_password,
                             failed_login_attempts := 0, is_locked := False\<rparr>) (rows s)
               \<and> (email_verified a \<and> find (\<lambda>u. email u = email a) (rows s) = Some a
                    \<and> verify_password c new_password (hash_password c new_password)
                  \<longrightarrow> (\<exists>t s''. login_user c s' (email a) new_password
                         = (Inr (Some (a\<lparr>hashed_password := hash_password c new_password,
                               failed_login_attempts := 0, is_locked := False,
                               last_login_at := Some t\<rparr>)), s'')))))
       \<and> (find (\<lambda>u. user_id u = i) (rows s) = None \<longrightarrow>
            (\<exists>s'. reset_password c s i new_password = (Inr False, s') \<and> rows s' = rows s))"
proof (intro conjI impI)
  assume found: "find (\<lambda>u. user_id u = i) (rows s) = Some a"
  let ?a = "a\<lparr>hashed_password := hash_password c new_password,
               failed_login_attempts := 0, is_locked := False\<rparr>"
  from fetch_user_ok [OF assms, of "\<lambda>u. user_id u = i"] obtain s1 where
    s1: "fetch_user s (\<lambda>u. user_id u = i) = (Some a, s1)" "rows s1 = rows s" "healthy s1"
    using found by auto
  from commit_add_ok [OF s1(3), of ?a] obtain s2 where
    s2: "session_commit (session_add s1 ?a) = (Inr (), s2)" "rows s2 = upsert ?a (rows s1)"
      "healthy s2"
    by blast
  have i: "user_id a = i"
    using found by (auto simp: find_Some_iff)
  have run: "reset_password c s i new_password = (Inr True, s2)"
    using s1(1) s2(1) by (simp add: reset_password_def get_by_id_def)
  have stored: "find (\<lambda>u. user_id u = i) (rows s2) = Some ?a"
    using find_upsert_id [OF found, of ?a] s1(2) s2(2) i by simp
  have login: "\<exists>t s''. login_user c s2 (email a) new_password
        = (Inr (Some (?a\<lparr>last_login_at := Some t\<rparr>)), s'')"
    if "email_verified a" "find (\<lambda>u. email u = email a) (rows s) = Some a"
      "verify_password c new_password (hash_password c new_password)"
  proof -
    have "find (\<lambda>u. email u = email a) (rows s2) = Some ?a"
      using find_upsert_email [OF that(2), of ?a] s1(2) s2(2) by simp
    from login_correct_password [OF s2(3) this, of c new_password] that(1,3)
    obtain t s'' where "login_user c s2 (email a) new_password
        = (Inr (Some (?a\<lparr>failed_login_attempts := 0, last_login_at := Some t\<rparr>)), s'')"
      by auto
    moreover have "?a\<lparr>failed_login_attempts := 0, last_login_at := Some t\<rparr>
        = ?a\<lparr>last_login_at := Some t\<rparr>"
      by simp
    ultimately show ?thesis by metis
  qed
  from run stored s2(2) s1(2) login
  show "\<exists>s'. reset_password c s i new_password = (Inr True, s')
               \<and> find (\<lambda>u. user_id u = i) (rows s') = Some ?a
               \<and> rows s' = upsert ?a (rows s)
               \<and> (email_verified a \<and> find (\<lambda>u. email u = email a) (rows s) = Some a
                    \<and> verify_password c new_password (hash_password c new_password)
                  \<longrightarrow> (\<exists>t s''. login_user c s' (email a) new_password
                         = (Inr (Some (a\<lparr>hashed_password := hash_password c new_password,
                               failed_login_attempts := 0, is_locked := False,
                               last_login_at := Some t\<rparr>)), s'')))"
    by auto
next
  assume missing: "find (\<lambda>u. user_id u = i) (rows s) = None"
  from fetch_user_ok [OF assms, of "\<lambda>u. user_id u = i"] obtain s1 where
    "fetch_user s (\<lambda>u. user_id u = i) = (None, s1)" "rows s1 = rows s"
    using missing by auto
  then show "\<exists>s'. reset_password c s i new_password = (Inr False, s') \<and> rows s' = rows s"
    by (simp add: reset_password_def get_by_id_def)
qed

theorem reset_password_unlocks_witness:
  "healthy (demo_session [alice, dave] [])
   \<and> is_locked dave \<and> failed_login_attempts dave = 3
   \<and> (\<exists>s'. reset_password demo_env (demo_session [alice, dave] []) 4 ''New12345!''
              = (Inr True, s')
          \<and> rows s' = [alice, dave\<lparr>hashed_password := ''h:New12345!'',
                                   failed_login_attempts := 0, is_locked := False\<rparr>]
          \<and> (\<exists>t s''. login_user demo_env s' ''d@x.com'' ''New12345!''
                 = (Inr (Some (dave\<lparr>hashed_password := ''h:New12345!'',
                       failed_login_attempts := 0, is_locked := False,
                       last_login_at := Some t\<rparr>)), s'')))
   \<and> (\<exists>s'. reset_password demo_env (demo_session [alice, dave] []) 9 ''New12345!''
              = (Inr False, s'))"
proof -
  have h: "healthy (demo_session [alice, dave] [])"
    by (simp add: healthy_def demo_session_def)
  have f: "find (\<lambda>u. user_id u = 4) (rows (demo_session [alice, dave] [])) = Some dave"
    by (simp add: demo_session_def alice_def dave_def)
  have g: "find (\<lambda>u. email u = email dave) (rows (demo_session [alice, dave] [])) = Some dave"
    by (simp add: demo_session_def alice_def dave_def)
  have m: "find (\<lambda>u. user_id u = 9) (rows (demo_session [alice, dave] [])) = None"
    by (simp add: demo_session_def alice_def dave_def)
  have d: "is_locked dave" "failed_login_attempts dave = 3" "email_verified dave"
    "email dave = ''d@x.com''"
    by (simp_all add: dave_def)
  have k: "verify_password demo_env ''New12345!'' (hash_password demo_env ''New12345!'')"
    "hash_password demo_env ''New12345!'' = ''h:New12345!''"
    by (simp_all add: demo_env_def)
  have u: "upsert (dave\<lparr>hashed_password := ''h:New12345!'', failed_login_attempts := 0,
                        is_locked := False\<rparr>) (rows (demo_session [alice, dave] []))
      = [alice, dave\<lparr>hashed_password := ''h:New12345!'', failed_login_attempts := 0,
                     is_locked := False\<rparr>]"
    by (simp add: upsert_def demo_session_def alice_def dave_def)
  from reset_password_unlocks [OF h, of 4 dave demo_env "''New12345!''"] f g d k u
  have one: "\<exists>s'. reset_password demo_env (demo_session [alice, dave] []) 4 ''New12345!''
              = (Inr True, s')
          \<and> rows s' = [alice, dave\<lparr>hashed_password := ''h:New12345!'',
                                   failed_login_attempts := 0, is_locked := False\<rparr>]
          \<and> (\<exists>t s''. login_user demo_env s' ''d@x.com'' ''New12345!''
                 = (Inr (Some (dave\<lparr>hashed_password := ''h:New12345!'',
                       failed_login_attempts := 0, is_locked := False,
                       last_login_at := Some t\<rparr>)), s''))"
    by auto
  from reset_password_unlocks [OF h, of 9 dave demo_env "''New12345!''"] m
  have two: "\<exists>s'. reset_password demo_env (demo_session [alice, dave] []) 9 ''New12345!''
              = (Inr False, s')"
    by auto
  from one two h d show ?thesis by blast
qed

section \<open>Search by account status\<close>

text \<open>
  Claim C10: for every non-empty \<open>account_status\<close> string \<open>st\<close>, \<^verbatim>\<open>search_users\<close>
  returns exactly (the requested window of) the accounts that pass the other filters and
  have \<open>is_locked = (str_lower c st = ''locked'')\<close>, where \<open>str_lower c\<close> is the
  lowercasing Python applies; so a non-empty string whose lowercase is not \<open>locked\<close>
  selects unlocked accounts only. An absent or empty \<open>account_status\<close> filters nothing,
  and so does an empty string in each of the other string filters.
\<close>

theorem search_by_account_status:
  assumes "healthy s"
  shows "(st \<noteq> [] \<longrightarrow>
            fst (search_users c s un em fn ln rl (Some st) df dt skip lim)
              = map to_response (take lim (drop skip (filter
                  (\<lambda>u. other_filters c un em fn ln rl df dt u
                        \<and> is_locked u = (str_lower c st = ''locked''))
                  (rows s)))))
       \<and> (st \<noteq> [] \<and> str_lower c st \<noteq> ''locked'' \<longrightarrow>
            (\<forall>r \<in> set (fst (search_users c s un em fn ln rl (Some st) df dt skip lim)).
               r_account_status r = ''Active''))
       \<and> (x = None \<or> x = Some [] \<longrightarrow>
            fst (search_users c s un em fn ln rl x df dt skip lim)
              = map to_response (take lim (drop skip (filter
                  (other_filters c un em fn ln rl df dt) (rows s)))))
       \<and> search_users c s (Some []) em fn ln rl x df dt skip lim
           = search_users c s None em fn ln rl x df dt skip lim
       \<and> search_users c s un (Some []) fn ln rl x df dt skip lim
           = search_users c s un None fn ln rl x df dt skip lim
       \<and> search_users c s un em (Some []) ln rl x df dt skip lim
           = search_users c s un em None ln rl x df dt skip lim
       \<and> search_users c s un em fn (Some []) rl x df dt skip lim
           = search_users c s un em fn None rl x df dt skip lim
       \<and> search_users c s un em fn ln (Some []) x df dt skip lim
           = search_users c s un em fn ln None x df dt skip lim"
proof -
  have status: "fst (search_users c s un em fn ln rl (Some st) df dt skip lim)
      = map to_response (take lim (drop skip (filter
          (\<lambda>u. other_filters c un em fn ln rl df dt u
                \<and> is_locked u = (str_lower c st = ''locked''))
          (rows s))))"
    if "st \<noteq> []"
    using that by (simp add: search_users_result [OF assms] truthy_def str_of_def)
  have unlocked: "r_account_status r = ''Active''"
    if "st \<noteq> []" "str_lower c st \<noteq> ''locked''"
      "r \<in> set (fst (search_users c s un em fn ln rl (Some st) df dt skip lim))" for r
  proof -
    from that(3) status [OF that(1)] obtain u where
      u: "r = to_response u"
        "u \<in> set (take lim (drop skip (filter
            (\<lambda>u. other_filters c un em fn ln rl df dt u
                  \<and> is_locked u = (str_lower c st = ''locked''))
            (rows s))))"
      by auto
    from u(2) have "u \<in> set (filter
        (\<lambda>u. other_filters c un em fn ln rl df dt u
              \<and> is_locked u = (str_lower c st = ''locked''))
        (rows s))"
      by (meson in_set_takeD in_set_dropD)
    with that(2) have "\<not> is_locked u" by simp
    with u(1) show ?thesis by (simp add: to_response_def)
  qed
  have absent: "fst (search_users c s un em fn ln rl x df dt skip lim)
      = map to_response (take lim (drop skip (filter
          (other_filters c un em fn ln rl df dt) (rows s))))"
    if "x = None \<or> x = Some []"
    using that by (auto simp: search_users_result [OF assms] truthy_def)
  have empty: "truthy (Some []) = truthy None" "str_of (Some []) = str_of None"
    by (simp_all add: truthy_def str_of_def)
  have e1: "search_users c s (Some []) em fn ln rl x df dt skip lim
           = search_users c s None em fn ln rl x df dt skip lim"
    unfolding search_users_def empty ..
  have e2: "search_users c s un (Some []) fn ln rl x df dt skip lim
           = search_users c s un None fn ln rl x df dt skip lim"
    unfolding search_users_def empty ..
  have e3: "search_users c s un em (Some []) ln rl x df dt skip lim
           = search_users c s un em None ln rl x df dt skip lim"
    unfolding search_users_def empty ..
  have e4: "search_users c s un em fn (Some []) rl x df dt skip lim
           = search_users c s un em fn None rl x df dt skip lim"
    unfolding search_users_def empty ..
  have e5: "search_users c s un em fn ln (Some []) x df dt skip lim
           = search_users c s un em fn ln None x df dt skip lim"
    unfolding search_users_def empty ..
  from status unlocked absent e1 e2 e3 e4 e5 show ?thesis by blast
qed

theorem search_by_account_status_witness:
  "healthy (demo_session [alice, bob, carol, dave] [])
   \<and> fst (search_users demo_env (demo_session [alice, bob, carol, dave] []) None None None
            None None (Some ''LoCkEd'') None None 0 10) = [to_response dave]
   \<and> fst (search_users demo_env (demo_session [alice, bob, carol, dave] []) None None None
            None None (Some ''banana'') None None 0 10) = map to_response [alice, bob, carol]
   \<and> fst (search_users demo_env (demo_session [alice, bob, carol, dave] []) None None None
            None None (Some []) None None 0 10) = map to_response [alice, bob, carol, dave]
   \<and> fst (search_users kelvin_env (demo_session [alice, bob, carol, dave] []) None None None
            None None (Some kelvin_status) None None 0 10) = [to_response dave]"
proof -
  have h: "healthy (demo_session [alice, bob, carol, dave] [])"
    by (simp add: healthy_def demo_session_def)
  have l: "lower ''LoCkEd'' = ''locked''" "lower ''banana'' \<noteq> ''locked''"
    by code_simp+
  have lk: "lower_with_kelvin kelvin_status = ''locked''"
    unfolding kelvin_status_def by code_simp
  have sl: "str_lower demo_env = lower" "str_lower kelvin_env = lower_with_kelvin"
    by (simp_all add: demo_env_def kelvin_env_def)
  have ne: "kelvin_status \<noteq> []"
    by (simp add: kelvin_status_def)
  have o: "other_filters c None None None None None None None = (\<lambda>u. True)" for c
    by (simp add: other_filters_def truthy_def fun_eq_iff)
  have r: "rows (demo_session [alice, bob, carol, dave] []) = [alice, bob, carol, dave]"
    by (simp add: demo_session_def)
  have k: "\<not> is_locked alice" "\<not> is_locked bob" "\<not> is_locked carol" "is_locked dave"
    by (simp_all add: alice_def bob_def carol_def dave_def)
  note t = search_by_account_status [OF h, where un = None and em = None and fn = None
      and ln = None and rl = None and df = None and dt = None and skip = 0 and lim = 10]
  from t [of "''LoCkEd''" demo_env None] l sl o r k
  have one: "fst (search_users demo_env (demo_session [alice, bob, carol, dave] []) None None
      None None None (Some ''LoCkEd'') None None 0 10) = [to_response dave]"
    by simp
  from t [of "''banana''" demo_env None] l sl o r k
  have two: "fst (search_users demo_env (demo_session [alice, bob, carol, dave] []) None None
      None None None (Some ''banana'') None None 0 10) = map to_response [alice, bob, carol]"
    by simp
  from t [of "''x''" demo_env "Some []"] o r
  have three: "fst (search_users demo_env (demo_session [alice, bob, carol, dave] []) None None
      None None None (Some []) None None 0 10) = map to_response [alice, bob, carol, dave]"
    by simp
  from t [of kelvin_status kelvin_env None] lk sl ne o r k
  have four: "fst (search_users kelvin_env (demo_session [alice, bob, carol, dave] []) None None
      None None None (Some kelvin_status) None None 0 10) = [to_response dave]"
    by simp
  from h one two three four show ?thesis by blast
qed

end
